theory Spec2Isabelle
  imports Main
begin

section \<open>Ext.ux.WebSocketManager: the registry of websockets and its dispatch operations\<close>

text \<open>
  The singleton of \<^verbatim>\<open>src/ux/WebSocketManager.js\<close> owns one \<^verbatim>\<open>Ext.util.HashMap\<close>,
  \<^verbatim>\<open>wsList\<close>, from the url of a websocket to the websocket. Its methods mutate that
  map and call \<^verbatim>\<open>isReady\<close>, \<^verbatim>\<open>send\<close> and \<^verbatim>\<open>disconnect\<close> on the websockets. The
  model passes the state explicitly: the map, and a log of the calls made on websockets.
\<close>

subsection \<open>JavaScript values\<close>

text \<open>
  The values the methods receive where the source does not fix a type: the argument of
  \<^verbatim>\<open>multicast\<close>, the elements of an array, the \<^verbatim>\<open>url\<close> property of a websocket.
  \<open>Obj\<close> is an object that is not an array.
\<close>

datatype 'o jsval = Undefined | Null | Str string | Obj 'o

text \<open>
  \<^verbatim>\<open>Ext.isEmpty (value)\<close>: true for \<^verbatim>\<open>null\<close>, \<^verbatim>\<open>undefined\<close> and the empty string
  (and for an empty array, which \<open>jsval\<close> does not contain).
\<close>

fun isEmpty :: "'o jsval \<Rightarrow> bool" where
  "isEmpty Undefined = True"
| "isEmpty Null = True"
| "isEmpty (Str s) = (s = [])"
| "isEmpty (Obj x) = False"

text \<open>
  A value used as a property name, \<^verbatim>\<open>map[key]\<close>, is converted to a string first:
  \<^verbatim>\<open>undefined\<close> names the property \<^verbatim>\<open>"undefined"\<close>, and an object without a
  \<^verbatim>\<open>toString\<close> of its own the property \<^verbatim>\<open>"[object Object]"\<close>.
\<close>

fun toKey :: "'o jsval \<Rightarrow> string" where
  "toKey Undefined = ''undefined''"
| "toKey Null = ''null''"
| "toKey (Str s) = s"
| "toKey (Obj x) = ''[object Object]''"

subsection \<open>Websockets and the calls made on them\<close>

text \<open>
  A websocket as the manager sees it: the identity of the object, its \<^verbatim>\<open>url\<close>
  property, and what its \<^verbatim>\<open>isReady ()\<close> answers. The url of a websocket is given
  when it is created and the manager never assigns it, so a websocket is a value. The
  websocket class is not part of the manager; \<^verbatim>\<open>send\<close> and \<^verbatim>\<open>disconnect\<close> are
  recorded as calls, in order.
\<close>

record websocket =
  wid :: nat
  url :: "unit jsval"
  ready :: bool

datatype call = Send websocket string string | Disconnect websocket

type_synonym hashmap = "(string \<times> websocket) list"

record manager =
  wsList :: hashmap
  calls :: "call list"

datatype error = TypeError

definition isReady :: "websocket \<Rightarrow> bool" where
  "isReady websocket = ready websocket"

definition send :: "websocket \<Rightarrow> string \<Rightarrow> string \<Rightarrow> manager \<Rightarrow> manager" where
  "send websocket event message s = s\<lparr>calls := calls s @ [Send websocket event message]\<rparr>"

definition ws_disconnect :: "websocket \<Rightarrow> manager \<Rightarrow> manager" where
  "ws_disconnect websocket s = s\<lparr>calls := calls s @ [Disconnect websocket]\<rparr>"

subsection \<open>Ext.util.HashMap\<close>

text \<open>
  Modelled from the spec: \<^verbatim>\<open>Ext.util.HashMap\<close> is library code that is not under
  \<^verbatim>\<open>src/\<close>. The spec describes the registry as a single mapping from key to
  handle that is iterated in insertion order; the list below holds the entries in that
  order, adding an existing key replaces its value in place, and \<^verbatim>\<open>each\<close> runs
  over the entries as they are when it is called.
\<close>

definition hm_containsKey :: "hashmap \<Rightarrow> string \<Rightarrow> bool" where
  "hm_containsKey m k = (map_of m k \<noteq> None)"

definition hm_get :: "hashmap \<Rightarrow> string \<Rightarrow> websocket option" where
  "hm_get m k = map_of m k"

definition hm_replace :: "string \<Rightarrow> websocket \<Rightarrow> hashmap \<Rightarrow> hashmap" where
  "hm_replace k v m = map (\<lambda>(k', v'). if k' = k then (k, v) else (k', v')) m"

definition hm_add :: "string \<Rightarrow> websocket \<Rightarrow> hashmap \<Rightarrow> hashmap" where
  "hm_add k v m = (if hm_containsKey m k then hm_replace k v m else m @ [(k, v)])"

definition hm_removeAtKey :: "string \<Rightarrow> hashmap \<Rightarrow> hashmap" where
  "hm_removeAtKey k m = (if hm_containsKey m k then filter (\<lambda>(k', v'). k' \<noteq> k) m else m)"

definition hm_each :: "(string \<Rightarrow> websocket \<Rightarrow> 'st \<Rightarrow> 'st) \<Rightarrow> hashmap \<Rightarrow> 'st \<Rightarrow> 'st" where
  "hm_each fn m st = fold (\<lambda>(k, v). fn k v) m st"

subsection \<open>The manager\<close>

text \<open>
  The argument of \<^verbatim>\<open>multicast\<close>: one value, or an array of values.
  \<^verbatim>\<open>Ext.isObject\<close> holds of \<open>Val (Obj w)\<close> only, \<^verbatim>\<open>Ext.isArray\<close> of
  \<open>Array xs\<close> only.
\<close>

datatype jsarg = Val "websocket jsval" | Array "websocket jsval list"

definition initial :: manager where
  "initial = \<lparr>wsList = [], calls = []\<rparr>"

text \<open>
  \<^verbatim>\<open>register\<close> and \<^verbatim>\<open>unregister\<close> take a websocket or an array of websockets:
  \<^verbatim>\<open>if (Ext.isObject (websockets)) websockets = [websockets]\<close>.
\<close>

datatype websockets = One websocket | Many "websocket list"

fun toArray :: "websockets \<Rightarrow> websocket list" where
  "toArray (One w) = [w]"
| "toArray (Many ws) = ws"

definition register_step :: "websocket \<Rightarrow> manager \<Rightarrow> manager" where
  "register_step w s =
     (if \<not> isEmpty (url w) then s\<lparr>wsList := hm_add (toKey (url w)) w (wsList s)\<rparr> else s)"

definition register :: "websockets \<Rightarrow> manager \<Rightarrow> manager" where
  "register websockets s = fold register_step (toArray websockets) s"

definition contains :: "websocket \<Rightarrow> manager \<Rightarrow> bool" where
  "contains websocket s = hm_containsKey (wsList s) (toKey (url websocket))"

definition get :: "string \<Rightarrow> manager \<Rightarrow> websocket option" where
  "get u s = hm_get (wsList s) u"

definition each :: "(websocket \<Rightarrow> manager \<Rightarrow> manager) \<Rightarrow> manager \<Rightarrow> manager" where
  "each fn s = hm_each (\<lambda>u websocket. fn websocket) (wsList s) s"

definition unregister_step :: "websocket \<Rightarrow> manager \<Rightarrow> manager" where
  "unregister_step w s =
     (if hm_containsKey (wsList s) (toKey (url w))
      then s\<lparr>wsList := hm_removeAtKey (toKey (url w)) (wsList s)\<rparr> else s)"

definition unregister :: "websockets \<Rightarrow> manager \<Rightarrow> manager" where
  "unregister websockets s = fold unregister_step (toArray websockets) s"

definition send_if_ready :: "string \<Rightarrow> string \<Rightarrow> string \<Rightarrow> websocket \<Rightarrow> manager \<Rightarrow> manager" where
  "send_if_ready event message u websocket s =
     (if isReady websocket then send websocket event message s else s)"

definition broadcast :: "string \<Rightarrow> string \<Rightarrow> manager \<Rightarrow> manager" where
  "broadcast event message s = hm_each (send_if_ready event message) (wsList s) s"

text \<open>
  \<^verbatim>\<open>multicast\<close>: an absent argument broadcasts; an object becomes a one-element array;
  for an array, every element is removed as a key from \<^verbatim>\<open>list\<close>, which is
  \<^verbatim>\<open>me.wsList\<close> itself, and the message goes to what is left. Any other argument (a
  string) fails all three tests and nothing is done.
\<close>

definition exclude :: "websocket jsval \<Rightarrow> manager \<Rightarrow> manager" where
  "exclude x s = s\<lparr>wsList := hm_removeAtKey (toKey x) (wsList s)\<rparr>"

definition multicast :: "jsarg \<Rightarrow> string \<Rightarrow> string \<Rightarrow> manager \<Rightarrow> manager" where
  "multicast websockets event message s =
     (let s1 = (if websockets = Val Undefined \<or> websockets = Val Null
                then broadcast event message s else s);
          websockets' = (case websockets of Val (Obj w) \<Rightarrow> Array [Obj w] | _ \<Rightarrow> websockets)
      in case websockets' of
           Array xs \<Rightarrow>
             (let s2 = fold exclude xs s1
              in hm_each (send_if_ready event message) (wsList s2) s2)
         | Val v \<Rightarrow> s1)"

text \<open>
  \<^verbatim>\<open>disconnect\<close>: \<^verbatim>\<open>me.wsList.get (websocket.url).disconnect ()\<close> is a TypeError when
  \<^verbatim>\<open>get\<close> answers \<^verbatim>\<open>undefined\<close>.
\<close>

definition disconnect :: "websocket \<Rightarrow> manager \<Rightarrow> error + manager" where
  "disconnect websocket s =
     (if hm_containsKey (wsList s) (toKey (url websocket))
      then (case hm_get (wsList s) (toKey (url websocket)) of
              None \<Rightarrow> Inl TypeError
            | Some w \<Rightarrow>
                (let s1 = ws_disconnect w s
                 in Inr (s1\<lparr>wsList := hm_removeAtKey (toKey (url websocket)) (wsList s1)\<rparr>)))
      else Inr s)"

definition disconnectAll :: "manager \<Rightarrow> manager" where
  "disconnectAll s = hm_each (\<lambda>u websocket. ws_disconnect websocket) (wsList s) s"

text \<open>The calls made on websockets between a state and a later one.\<close>

definition calls_since :: "manager \<Rightarrow> manager \<Rightarrow> call list" where
  "calls_since s s' = drop (length (calls s)) (calls s')"

subsection \<open>The registry invariant\<close>

text \<open>
  What holds of \<^verbatim>\<open>wsList\<close> in every state the methods can reach from the empty
  map: a key occurs once, and every entry is a websocket with a non-empty url, stored
  under the property name of that url.
\<close>

definition registry_ok :: "hashmap \<Rightarrow> bool" where
  "registry_ok m =
     (distinct (map fst m) \<and> (\<forall>(k, w) \<in> set m. \<not> isEmpty (url w) \<and> k = toKey (url w)))"

subsection \<open>Example websockets\<close>

text \<open>
  The three websockets of the example in the header of the source file, and websockets
  that are not ready, share a url, have no usable url, or have a url that is the name an
  absent value or an object converts to.
\<close>

definition ws1 :: websocket where
  "ws1 = \<lparr>wid = 1, url = Str ''http://localhost:8888'', ready = True\<rparr>"

definition ws2 :: websocket where
  "ws2 = \<lparr>wid = 2, url = Str ''http://localhost:8900'', ready = True\<rparr>"

definition ws3 :: websocket where
  "ws3 = \<lparr>wid = 3, url = Str ''http://localhost:8950'', ready = True\<rparr>"

definition ws4 :: websocket where
  "ws4 = \<lparr>wid = 4, url = Str ''http://localhost:9000'', ready = False\<rparr>"

definition ws1b :: websocket where
  "ws1b = \<lparr>wid = 5, url = Str ''http://localhost:8888'', ready = True\<rparr>"

definition ws_nourl :: websocket where
  "ws_nourl = \<lparr>wid = 6, url = Undefined, ready = True\<rparr>"

definition ws_emptyurl :: websocket where
  "ws_emptyurl = \<lparr>wid = 7, url = Str [], ready = True\<rparr>"

definition ws_undefined :: websocket where
  "ws_undefined = \<lparr>wid = 8, url = Str ''undefined'', ready = True\<rparr>"

definition ws_objkey :: websocket where
  "ws_objkey = \<lparr>wid = 9, url = Str ''[object Object]'', ready = True\<rparr>"

definition three_registered :: manager where
  "three_registered = register (Many [ws1, ws2, ws3]) initial"

section \<open>Properties\<close>

subsection \<open>The map, read as a partial function\<close>

lemma hm_containsKey_iff: "hm_containsKey m k \<longleftrightarrow> k \<in> fst ` set m"
  by (simp add: hm_containsKey_def map_of_eq_None_iff)

lemma hm_removeAtKey_filter: "hm_removeAtKey k m = filter (\<lambda>(k', v). k' \<noteq> k) m"
proof (cases "hm_containsKey m k")
  case True
  then show ?thesis by (simp add: hm_removeAtKey_def)
next
  case False
  then have "k \<notin> fst ` set m"
    by (simp add: hm_containsKey_iff)
  then have "filter (\<lambda>(k', v). k' \<noteq> k) m = m"
    by (intro filter_True) force
  with False show ?thesis by (simp add: hm_removeAtKey_def)
qed

lemma map_fst_hm_replace: "map fst (hm_replace k v m) = map fst m"
  by (induction m) (auto simp: hm_replace_def)

lemma set_hm_replace: "set (hm_replace k v m) \<subseteq> insert (k, v) (set m)"
  by (auto simp: hm_replace_def split: if_splits)

lemma map_of_hm_replace:
  "map_of (hm_replace k v m) k' = (if k' = k \<and> map_of m k \<noteq> None then Some v else map_of m k')"
  by (induction m) (auto simp: hm_replace_def)

lemma map_of_hm_add: "map_of (hm_add k v m) = (map_of m)(k \<mapsto> v)"
  by (auto simp: hm_add_def map_of_hm_replace hm_containsKey_def fun_eq_iff map_add_def
      split: option.splits)

lemma map_of_hm_removeAtKey: "map_of (hm_removeAtKey k m) = (map_of m)(k := None)"
  by (induction m) (auto simp: hm_removeAtKey_filter fun_eq_iff)

lemma contains_iff: "contains h s \<longleftrightarrow> map_of (wsList s) (toKey (url h)) \<noteq> None"
  by (simp add: contains_def hm_containsKey_def)

lemma get_eq: "get k s = map_of (wsList s) k"
  by (simp add: get_def hm_get_def)

lemma length_filter_key:
  "distinct (map fst m) \<Longrightarrow> k \<in> fst ` set m \<Longrightarrow> length (filter (\<lambda>(k', w). k' = k) m) = 1"
proof (induction m)
  case Nil
  then show ?case by simp
next
  case (Cons p m)
  show ?case
  proof (cases "fst p = k")
    case True
    with Cons.prems have "k \<notin> fst ` set m" by auto
    then have "filter (\<lambda>(k', w). k' = k) m = []"
      by (force simp: filter_empty_conv)
    with True show ?thesis by (simp add: split_def)
  next
    case False
    with Cons show ?thesis by (auto simp: split_def)
  qed
qed

subsection \<open>The methods in closed form\<close>

lemma register_One: "register (One h) s = register_step h s"
  by (simp add: register_def)

lemma register_step_empty: "isEmpty (url h) \<Longrightarrow> register_step h s = s"
  by (simp add: register_step_def)

lemma unregister_step_eq:
  "unregister_step w s = s\<lparr>wsList := filter (\<lambda>(k, v). k \<noteq> toKey (url w)) (wsList s)\<rparr>"
  by (simp add: unregister_step_def hm_removeAtKey_filter)
     (simp add: hm_removeAtKey_filter [symmetric] hm_removeAtKey_def)

lemma unregister_One: "unregister (One h) s = unregister_step h s"
  by (simp add: unregister_def)

lemma fold_exclude:
  "fold exclude xs s = s\<lparr>wsList := filter (\<lambda>(k, v). k \<notin> toKey ` set xs) (wsList s)\<rparr>"
proof (induction xs arbitrary: s)
  case Nil
  show ?case by simp
next
  case (Cons x xs)
  have "fold exclude (x # xs) s = fold exclude xs (exclude x s)"
    by simp
  also have "\<dots> = (exclude x s)\<lparr>wsList :=
      filter (\<lambda>(k, v). k \<notin> toKey ` set xs) (wsList (exclude x s))\<rparr>"
    by (rule Cons.IH)
  also have "\<dots> = s\<lparr>wsList := filter (\<lambda>(k, v). k \<notin> toKey ` set (x # xs)) (wsList s)\<rparr>"
    by (simp add: exclude_def hm_removeAtKey_filter split_def)
  finally show ?case .
qed

lemma fold_send_if_ready:
  "fold (\<lambda>(k, v). send_if_ready e m k v) xs s =
     s\<lparr>calls := calls s @ map (\<lambda>(k, w). Send w e m) (filter (\<lambda>(k, w). isReady w) xs)\<rparr>"
  by (induction xs arbitrary: s) (auto simp: send_if_ready_def send_def)

lemma fold_ws_disconnect:
  "fold (\<lambda>(k, v). ws_disconnect v) xs s =
     s\<lparr>calls := calls s @ map (\<lambda>(k, w). Disconnect w) xs\<rparr>"
  by (induction xs arbitrary: s) (auto simp: ws_disconnect_def)

lemma broadcast_eq:
  "broadcast e m s =
     s\<lparr>calls := calls s @ map (\<lambda>(k, w). Send w e m) (filter (\<lambda>(k, w). isReady w) (wsList s))\<rparr>"
  by (simp add: broadcast_def hm_each_def fold_send_if_ready)

lemma multicast_Array_eq:
  "multicast (Array xs) e m s =
     s\<lparr>wsList := filter (\<lambda>(k, v). k \<notin> toKey ` set xs) (wsList s),
       calls := calls s @ map (\<lambda>(k, w). Send w e m)
         (filter (\<lambda>(k, w). isReady w) (filter (\<lambda>(k, v). k \<notin> toKey ` set xs) (wsList s)))\<rparr>"
  by (simp add: multicast_def hm_each_def fold_send_if_ready fold_exclude Let_def)

lemma disconnectAll_eq:
  "disconnectAll s = s\<lparr>calls := calls s @ map (\<lambda>(k, w). Disconnect w) (wsList s)\<rparr>"
  by (simp add: disconnectAll_def hm_each_def fold_ws_disconnect)

lemma disconnect_eq:
  "disconnect h s =
     (case map_of (wsList s) (toKey (url h)) of
        None \<Rightarrow> Inr s
      | Some w \<Rightarrow> Inr (s\<lparr>calls := calls s @ [Disconnect w],
                          wsList := filter (\<lambda>(k, v). k \<noteq> toKey (url h)) (wsList s)\<rparr>))"
  by (simp add: disconnect_def hm_containsKey_def hm_get_def ws_disconnect_def
      hm_removeAtKey_filter Let_def split: option.splits)

subsection \<open>The invariant holds in every reachable state\<close>

lemma registry_ok_entry:
  assumes "registry_ok m" and "(k, w) \<in> set m"
  shows "k = toKey (url w)" and "\<not> isEmpty (url w)"
proof -
  from assms(1) have "\<forall>p \<in> set m. \<not> isEmpty (url (snd p)) \<and> fst p = toKey (url (snd p))"
    by (simp add: registry_ok_def split_def)
  with assms(2) have "\<not> isEmpty (url (snd (k, w))) \<and> fst (k, w) = toKey (url (snd (k, w)))"
    by (rule bspec [rotated])
  then show "k = toKey (url w)" and "\<not> isEmpty (url w)"
    by simp_all
qed

lemma registry_ok_distinct_snd:
  assumes "registry_ok m"
  shows "distinct (map snd m)"
proof -
  have "inj_on snd (set m)"
  proof (rule inj_onI)
    fix p q
    assume p: "p \<in> set m" and q: "q \<in> set m" and eq: "snd p = snd q"
    have "fst p = toKey (url (snd p))"
      using registry_ok_entry(1) [OF assms, of "fst p" "snd p"] p by simp
    moreover have "fst q = toKey (url (snd q))"
      using registry_ok_entry(1) [OF assms, of "fst q" "snd q"] q by simp
    ultimately show "p = q"
      using eq by (simp add: prod_eq_iff)
  qed
  moreover have "distinct m"
    using assms by (simp add: registry_ok_def distinct_map)
  ultimately show ?thesis by (simp add: distinct_map)
qed

lemma toKey_not_empty: "\<not> isEmpty v \<Longrightarrow> toKey v \<noteq> []"
  by (cases v) simp_all

lemma registry_ok_no_empty_key:
  assumes "registry_ok m"
  shows "map_of m [] = None"
proof (rule ccontr)
  assume "map_of m [] \<noteq> None"
  then obtain w where "(([]::string), w) \<in> set m"
    by (auto dest: map_of_SomeD)
  then have "[] = toKey (url w)" and "\<not> isEmpty (url w)"
    using assms by (rule registry_ok_entry [rotated])+
  then show False
    using toKey_not_empty [of "url w"] by simp
qed

lemma registry_ok_initial: "registry_ok (wsList initial)"
  by (simp add: initial_def registry_ok_def)

lemma registry_ok_filter: "registry_ok m \<Longrightarrow> registry_ok (filter P m)"
  by (auto simp: registry_ok_def distinct_map_filter)

lemma registry_ok_hm_add:
  assumes "registry_ok m" and "\<not> isEmpty (url w)"
  shows "registry_ok (hm_add (toKey (url w)) w m)"
proof (cases "hm_containsKey m (toKey (url w))")
  case True
  have "\<forall>(k, w') \<in> set (hm_replace (toKey (url w)) w m). \<not> isEmpty (url w') \<and> k = toKey (url w')"
    using assms set_hm_replace [of "toKey (url w)" w m] by (auto simp: registry_ok_def)
  with assms True show ?thesis
    by (simp add: hm_add_def registry_ok_def map_fst_hm_replace)
next
  case False
  with assms show ?thesis
    by (auto simp: hm_add_def registry_ok_def hm_containsKey_iff)
qed

lemma registry_ok_register_step:
  "registry_ok (wsList s) \<Longrightarrow> registry_ok (wsList (register_step w s))"
  by (simp add: register_step_def registry_ok_hm_add)

lemma registry_ok_fold_register_step:
  "registry_ok (wsList s) \<Longrightarrow> registry_ok (wsList (fold register_step ws s))"
  by (induction ws arbitrary: s) (simp_all add: registry_ok_register_step)

lemma registry_ok_register:
  "registry_ok (wsList s) \<Longrightarrow> registry_ok (wsList (register websockets s))"
  by (simp add: register_def registry_ok_fold_register_step)

lemma registry_ok_fold_unregister_step:
  "registry_ok (wsList s) \<Longrightarrow> registry_ok (wsList (fold unregister_step ws s))"
  by (induction ws arbitrary: s) (simp_all add: unregister_step_eq registry_ok_filter)

lemma registry_ok_unregister:
  "registry_ok (wsList s) \<Longrightarrow> registry_ok (wsList (unregister websockets s))"
  by (simp add: unregister_def registry_ok_fold_unregister_step)

lemma registry_ok_broadcast:
  "registry_ok (wsList s) \<Longrightarrow> registry_ok (wsList (broadcast e m s))"
  by (simp add: broadcast_eq)

lemma registry_ok_multicast:
  "registry_ok (wsList s) \<Longrightarrow> registry_ok (wsList (multicast a e m s))"
proof (cases a)
  case (Val v)
  then show "registry_ok (wsList s) \<Longrightarrow> registry_ok (wsList (multicast a e m s))"
    by (cases v)
       (simp_all add: multicast_def hm_each_def fold_send_if_ready fold_exclude exclude_def
          hm_removeAtKey_filter registry_ok_filter broadcast_eq)
next
  case (Array xs)
  then show "registry_ok (wsList s) \<Longrightarrow> registry_ok (wsList (multicast a e m s))"
    by (simp add: multicast_Array_eq registry_ok_filter)
qed

lemma registry_ok_disconnect:
  "registry_ok (wsList s) \<Longrightarrow> disconnect h s = Inr s' \<Longrightarrow> registry_ok (wsList s')"
  by (auto simp: disconnect_eq registry_ok_filter split: option.splits)

lemma registry_ok_disconnectAll:
  "registry_ok (wsList s) \<Longrightarrow> registry_ok (wsList (disconnectAll s))"
  by (simp add: disconnectAll_eq)

subsection \<open>Counting the calls on one websocket\<close>

lemma count_sends:
  assumes "distinct (map snd xs)"
  shows "count_list (map (\<lambda>(k, w). Send w e m) (filter P xs)) (Send w e m) =
           (if \<exists>k. (k, w) \<in> set xs \<and> P (k, w) then 1 else 0)"
  using assms
proof (induction xs)
  case Nil
  show ?case by simp
next
  case (Cons x xs)
  obtain k' w' where x: "x = (k', w')" by (cases x)
  from Cons.prems have notin: "w' \<notin> snd ` set xs" and d: "distinct (map snd xs)"
    by (simp_all add: x)
  show ?case
  proof (cases "w' = w")
    case True
    with notin have "\<And>k. (k, w) \<notin> set xs" by force
    with Cons.IH [OF d] True show ?thesis by (simp add: x)
  next
    case False
    with Cons.IH [OF d] show ?thesis by (auto simp: x)
  qed
qed

lemma count_sends_entry:
  assumes "registry_ok m" and "(k, w) \<in> set m"
  shows "count_list (map (\<lambda>(k, w). Send w e msg) (filter P m)) (Send w e msg) =
           (if P (k, w) then 1 else 0)"
proof -
  have d: "distinct (map snd m)"
    using assms(1) by (rule registry_ok_distinct_snd)
  have "k' = k" if "(k', w) \<in> set m" for k'
    using registry_ok_entry(1) [OF assms(1) that] registry_ok_entry(1) [OF assms] by simp
  then have "(\<exists>k'. (k', w) \<in> set m \<and> P (k', w)) \<longleftrightarrow> P (k, w)"
    using assms(2) by blast
  then show ?thesis
    by (simp add: count_sends [OF d])
qed

subsection \<open>The example states, evaluated\<close>

lemmas ws_defs = ws1_def ws2_def ws3_def ws4_def ws1b_def ws_nourl_def ws_emptyurl_def
  ws_undefined_def ws_objkey_def

lemma three_registered_eq:
  "three_registered =
     \<lparr>wsList = [(''http://localhost:8888'', ws1), (''http://localhost:8900'', ws2),
                (''http://localhost:8950'', ws3)],
      calls = []\<rparr>"
  by (simp add: three_registered_def register_def register_step_def hm_add_def
      hm_containsKey_def initial_def ws_defs)

lemma registry_ok_three_registered: "registry_ok (wsList three_registered)"
  unfolding three_registered_def
  by (intro registry_ok_register registry_ok_initial)

subsection \<open>broadcast\<close>

text \<open>
  C3: the calls \<^verbatim>\<open>broadcast\<close> makes are exactly one \<^verbatim>\<open>send (event, message)\<close> for each
  registered websocket that is ready, in the order of the registry, and the registry is
  unchanged. Counted per registered websocket, in a registry that satisfies the
  invariant: one call when it is ready, none when it is not. \<^verbatim>\<open>broadcast\<close> has no
  failing branch: it returns a state.
\<close>

theorem broadcast_sends_to_ready:
  "calls_since s (broadcast e m s) =
     map (\<lambda>(k, w). Send w e m) (filter (\<lambda>(k, w). isReady w) (wsList s)) \<and>
   calls (broadcast e m s) = calls s @ calls_since s (broadcast e m s) \<and>
   wsList (broadcast e m s) = wsList s \<and>
   (registry_ok (wsList s) \<longrightarrow>
      (\<forall>(k, w) \<in> set (wsList s).
         count_list (calls_since s (broadcast e m s)) (Send w e m) = (if isReady w then 1 else 0)))"
proof (intro conjI impI)
  show c: "calls_since s (broadcast e m s) =
      map (\<lambda>(k, w). Send w e m) (filter (\<lambda>(k, w). isReady w) (wsList s))"
    by (simp add: calls_since_def broadcast_eq)
  show "calls (broadcast e m s) = calls s @ calls_since s (broadcast e m s)"
    by (simp add: calls_since_def broadcast_eq)
  show "wsList (broadcast e m s) = wsList s"
    by (simp add: broadcast_eq)
  assume ok: "registry_ok (wsList s)"
  show "\<forall>(k, w) \<in> set (wsList s).
      count_list (calls_since s (broadcast e m s)) (Send w e m) = (if isReady w then 1 else 0)"
  proof clarify
    fix k w
    assume "(k, w) \<in> set (wsList s)"
    then show "count_list (calls_since s (broadcast e m s)) (Send w e m) =
        (if isReady w then 1 else 0)"
      by (simp add: c count_sends_entry [OF ok])
  qed
qed

text \<open>
  With a ready and an unready websocket registered, the message goes to the ready one.
\<close>

theorem broadcast_sends_to_ready_witness:
  "registry_ok (wsList (register (Many [ws1, ws4]) initial)) \<and>
   calls (broadcast ''e'' ''m'' (register (Many [ws1, ws4]) initial)) = [Send ws1 ''e'' ''m''] \<and>
   count_list (calls_since (register (Many [ws1, ws4]) initial)
       (broadcast ''e'' ''m'' (register (Many [ws1, ws4]) initial))) (Send ws1 ''e'' ''m'') = 1 \<and>
   count_list (calls_since (register (Many [ws1, ws4]) initial)
       (broadcast ''e'' ''m'' (register (Many [ws1, ws4]) initial))) (Send ws4 ''e'' ''m'') = 0"
proof -
  have ok: "registry_ok (wsList (register (Many [ws1, ws4]) initial))"
    by (intro registry_ok_register registry_ok_initial)
  have eq: "register (Many [ws1, ws4]) initial =
      \<lparr>wsList = [(''http://localhost:8888'', ws1), (''http://localhost:9000'', ws4)], calls = []\<rparr>"
    by (simp add: register_def register_step_def hm_add_def hm_containsKey_def initial_def ws_defs)
  show ?thesis
    using ok broadcast_sends_to_ready [of "register (Many [ws1, ws4]) initial" "''e''" "''m''"]
    unfolding eq by (simp add: isReady_def ws_defs)
qed

subsection \<open>multicast\<close>

text \<open>
  C7: \<^verbatim>\<open>multicast\<close> with an absent argument (\<^verbatim>\<open>undefined\<close> or \<^verbatim>\<open>null\<close>) or with the
  empty array ends in the very state \<^verbatim>\<open>broadcast\<close> ends in, so it makes the same
  \<^verbatim>\<open>send\<close> calls in the same order, and that state has the registry it started from.
\<close>

theorem multicast_absent_is_broadcast:
  "multicast (Val Undefined) e m s = broadcast e m s \<and>
   multicast (Val Null) e m s = broadcast e m s \<and>
   multicast (Array []) e m s = broadcast e m s \<and>
   wsList (broadcast e m s) = wsList s"
  by (simp add: multicast_def broadcast_def hm_each_def fold_send_if_ready)

text \<open>
  C2: for an array \<open>ex\<close> of keys, the calls \<^verbatim>\<open>multicast\<close> makes are exactly one
  \<^verbatim>\<open>send (event, message)\<close> for each websocket that was registered under a key not in
  \<open>ex\<close> and is ready, in the order of the registry. Counted per registered websocket, in
  a registry that satisfies the invariant: one call when its key is not excluded and it
  is ready, none otherwise.
\<close>

theorem multicast_sends_to_unexcluded_ready:
  "calls_since s (multicast (Array (map Str ex)) e m s) =
     map (\<lambda>(k, w). Send w e m) (filter (\<lambda>(k, w). k \<notin> set ex \<and> isReady w) (wsList s)) \<and>
   calls (multicast (Array (map Str ex)) e m s) =
     calls s @ calls_since s (multicast (Array (map Str ex)) e m s) \<and>
   (registry_ok (wsList s) \<longrightarrow>
      (\<forall>(k, w) \<in> set (wsList s).
         count_list (calls_since s (multicast (Array (map Str ex)) e m s)) (Send w e m) =
           (if k \<notin> set ex \<and> isReady w then 1 else 0)))"
proof (intro conjI impI)
  have keys: "toKey ` set (map Str ex) = set ex"
    by (simp add: image_image)
  show c: "calls_since s (multicast (Array (map Str ex)) e m s) =
      map (\<lambda>(k, w). Send w e m) (filter (\<lambda>(k, w). k \<notin> set ex \<and> isReady w) (wsList s))"
    unfolding multicast_Array_eq keys calls_since_def by (simp add: split_def conj_commute)
  show "calls (multicast (Array (map Str ex)) e m s) =
      calls s @ calls_since s (multicast (Array (map Str ex)) e m s)"
    unfolding multicast_Array_eq calls_since_def by simp
  assume ok: "registry_ok (wsList s)"
  show "\<forall>(k, w) \<in> set (wsList s).
      count_list (calls_since s (multicast (Array (map Str ex)) e m s)) (Send w e m) =
        (if k \<notin> set ex \<and> isReady w then 1 else 0)"
  proof clarify
    fix k w
    assume "(k, w) \<in> set (wsList s)"
    then show "count_list (calls_since s (multicast (Array (map Str ex)) e m s)) (Send w e m) =
        (if k \<notin> set ex \<and> isReady w then 1 else 0)"
      by (simp add: c count_sends_entry [OF ok])
  qed
qed

text \<open>
  With the three example websockets registered and the url of the second excluded, the
  message goes to the first and the third, once each, and not to the second.
\<close>

theorem multicast_sends_to_unexcluded_ready_witness:
  "registry_ok (wsList three_registered) \<and>
   calls (multicast (Array (map Str [''http://localhost:8900''])) ''e'' ''m'' three_registered) =
     [Send ws1 ''e'' ''m'', Send ws3 ''e'' ''m''] \<and>
   count_list (calls_since three_registered
       (multicast (Array (map Str [''http://localhost:8900''])) ''e'' ''m'' three_registered))
     (Send ws1 ''e'' ''m'') = 1 \<and>
   count_list (calls_since three_registered
       (multicast (Array (map Str [''http://localhost:8900''])) ''e'' ''m'' three_registered))
     (Send ws2 ''e'' ''m'') = 0"
  using registry_ok_three_registered
    multicast_sends_to_unexcluded_ready [of three_registered "[''http://localhost:8900'']"
      "''e''" "''m''"]
  unfolding three_registered_eq by (simp add: isReady_def ws_defs)

text \<open>
  What an exclusion does to the registry: every key named by an element of the array is
  unregistered, every other key keeps its websocket.
\<close>

lemma multicast_Array_get:
  "get k (multicast (Array xs) e m s) = (if k \<in> toKey ` set xs then None else get k s)"
proof -
  have "map_of (filter (\<lambda>(k, v). k \<notin> A) al) k = (if k \<in> A then None else map_of al k)"
    for A and al :: hashmap
    by (induction al) auto
  then show ?thesis
    by (simp add: multicast_Array_eq get_eq)
qed

text \<open>
  C1: the claim is that a key excluded by \<^verbatim>\<open>multicast\<close> stays registered. The source
  excludes with \<^verbatim>\<open>list.removeAtKey\<close> where \<^verbatim>\<open>list\<close> is \<^verbatim>\<open>me.wsList\<close>, so the entry
  is gone from the registry afterwards: with the three websockets of the header example
  registered and the url of the second one excluded, the second one is registered
  before the call and is not after it.
\<close>

theorem multicast_unregisters_excluded:
  "contains ws2 three_registered \<and>
   get ''http://localhost:8900'' three_registered = Some ws2 \<and>
   \<not> contains ws2 (multicast (Array [Str ''http://localhost:8900'']) ''e'' ''m'' three_registered) \<and>
   get ''http://localhost:8900''
     (multicast (Array [Str ''http://localhost:8900'']) ''e'' ''m'' three_registered) = None"
  by (simp add: multicast_Array_eq three_registered_eq contains_def get_def hm_get_def
      hm_containsKey_def ws_defs)

text \<open>
  Exclusions that name no entry: when no element of the array converts to the property
  name of a registered key, \<^verbatim>\<open>multicast\<close> ends in the state \<^verbatim>\<open>broadcast\<close> ends in.
\<close>

lemma multicast_unmatched_names:
  assumes "\<forall>x \<in> set ex. get (toKey x) s = None"
  shows "multicast (Array ex) e m s = broadcast e m s \<and>
         wsList (multicast (Array ex) e m s) = wsList s \<and>
         calls (multicast (Array ex) e m s) =
           calls s @ map (\<lambda>(k, w). Send w e m) (filter (\<lambda>(k, w). isReady w) (wsList s))"
proof -
  have "k \<notin> toKey ` set ex" if "(k, w) \<in> set (wsList s)" for k w
  proof
    assume "k \<in> toKey ` set ex"
    then obtain x where "x \<in> set ex" "k = toKey x" by auto
    with assms have "map_of (wsList s) k = None" by (simp add: get_eq)
    with that show False by (simp add: map_of_eq_None_iff) force
  qed
  then have "filter (\<lambda>(k, v). k \<notin> toKey ` set ex) (wsList s) = wsList s"
    by (intro filter_True) auto
  then show ?thesis
    by (simp add: multicast_Array_eq broadcast_eq)
qed

text \<open>
  C10: the claim is that a non-empty exclusion array none of whose elements equals a
  registered key removes nothing and sends to every ready registered websocket. The
  source passes each element itself to \<^verbatim>\<open>removeAtKey\<close>, where \<^verbatim>\<open>unregister\<close> passes
  the \<^verbatim>\<open>url\<close> of the element, so a websocket object in the array names the property
  \<^verbatim>\<open>"[object Object]"\<close>. With \<open>ws1\<close> and a websocket of that url registered, and the
  object \<open>ws1\<close> as the only exclusion: the object is not one of the two keys, yet the
  entry under \<^verbatim>\<open>"[object Object]"\<close> is removed and its websocket, which
  \<^verbatim>\<open>broadcast\<close> sends to, gets no message.
\<close>

theorem multicast_object_removes_other_entry:
  "wsList (register (Many [ws1, ws_objkey]) initial) =
     [(''http://localhost:8888'', ws1), (''[object Object]'', ws_objkey)] \<and>
   Obj ws1 \<notin> set (map (\<lambda>(k, w). Str k) (wsList (register (Many [ws1, ws_objkey]) initial))) \<and>
   wsList (multicast (Array [Obj ws1]) ''e'' ''m'' (register (Many [ws1, ws_objkey]) initial)) =
     [(''http://localhost:8888'', ws1)] \<and>
   get ''[object Object]''
     (multicast (Array [Obj ws1]) ''e'' ''m'' (register (Many [ws1, ws_objkey]) initial)) = None \<and>
   calls (multicast (Array [Obj ws1]) ''e'' ''m'' (register (Many [ws1, ws_objkey]) initial)) =
     [Send ws1 ''e'' ''m''] \<and>
   calls (broadcast ''e'' ''m'' (register (Many [ws1, ws_objkey]) initial)) =
     [Send ws1 ''e'' ''m'', Send ws_objkey ''e'' ''m'']"
proof -
  have eq: "register (Many [ws1, ws_objkey]) initial =
      \<lparr>wsList = [(''http://localhost:8888'', ws1), (''[object Object]'', ws_objkey)],
       calls = []\<rparr>"
    by (simp add: register_def register_step_def hm_add_def hm_containsKey_def initial_def
        ws_defs)
  show ?thesis
    unfolding eq
    by (simp add: multicast_Array_eq broadcast_eq get_eq isReady_def ws_defs)
qed

subsection \<open>register, contains, unregister\<close>

text \<open>
  C6: from any registry, a websocket with a non-empty url is contained after it is
  registered, and is not contained after it is then unregistered.
\<close>

theorem register_unregister_roundtrip:
  assumes "\<not> isEmpty (url h)"
  shows "contains h (register (One h) s) \<and>
         \<not> contains h (unregister (One h) (register (One h) s))"
  using assms
  by (simp add: register_One unregister_One contains_iff register_step_def unregister_step_eq
      map_of_hm_add map_of_hm_removeAtKey hm_removeAtKey_filter [symmetric])

theorem register_unregister_roundtrip_witness:
  "\<not> isEmpty (url ws4) \<and> \<not> contains ws4 three_registered \<and>
   contains ws4 (register (One ws4) three_registered) \<and>
   \<not> contains ws4 (unregister (One ws4) (register (One ws4) three_registered))"
proof -
  have "\<not> isEmpty (url ws4)"
    by (simp add: ws4_def)
  moreover have "\<not> contains ws4 three_registered"
    by (simp add: contains_iff three_registered_eq ws4_def)
  ultimately show ?thesis
    using register_unregister_roundtrip [of ws4 three_registered] by blast
qed

text \<open>
  C5: two websockets with the same non-empty url, registered as the array \<open>[a, b]\<close>:
  \<^verbatim>\<open>get\<close> of that url answers \<open>b\<close>, and a registry that satisfied the invariant has
  exactly one entry under that url.
\<close>

theorem register_same_key_last_wins:
  assumes "\<not> isEmpty (url a)" and "url b = url a"
  shows "get (toKey (url a)) (register (Many [a, b]) s) = Some b \<and>
         (registry_ok (wsList s) \<longrightarrow>
            length (filter (\<lambda>(k, w). k = toKey (url a)) (wsList (register (Many [a, b]) s))) = 1)"
proof (intro conjI impI)
  show g: "get (toKey (url a)) (register (Many [a, b]) s) = Some b"
    using assms by (simp add: register_def register_step_def get_eq map_of_hm_add)
  assume "registry_ok (wsList s)"
  then have "registry_ok (wsList (register (Many [a, b]) s))"
    by (rule registry_ok_register)
  then have "distinct (map fst (wsList (register (Many [a, b]) s)))"
    by (simp add: registry_ok_def)
  moreover have "toKey (url a) \<in> fst ` set (wsList (register (Many [a, b]) s))"
    using g by (simp add: get_eq hm_containsKey_iff [symmetric] hm_containsKey_def)
  ultimately show "length (filter (\<lambda>(k, w). k = toKey (url a))
      (wsList (register (Many [a, b]) s))) = 1"
    by (rule length_filter_key)
qed

text \<open>
  \<open>ws1b\<close> is another websocket with the url of \<open>ws1\<close>; registered after it, it is the
  one \<^verbatim>\<open>get\<close> answers.
\<close>

theorem register_same_key_last_wins_witness:
  "registry_ok (wsList three_registered) \<and> \<not> isEmpty (url ws1) \<and> url ws1b = url ws1 \<and>
   ws1b \<noteq> ws1 \<and>
   get ''http://localhost:8888'' (register (Many [ws1, ws1b]) three_registered) = Some ws1b \<and>
   length (filter (\<lambda>(k, w). k = ''http://localhost:8888'')
     (wsList (register (Many [ws1, ws1b]) three_registered))) = 1"
proof -
  have h: "\<not> isEmpty (url ws1)" "url ws1b = url ws1" "ws1b \<noteq> ws1"
    "toKey (url ws1) = ''http://localhost:8888''"
    by (simp_all add: ws1_def ws1b_def)
  show ?thesis
    using register_same_key_last_wins [OF h(1,2), of three_registered] h
      registry_ok_three_registered
    by simp
qed

text \<open>
  A websocket whose url is empty or absent is skipped by \<^verbatim>\<open>register\<close>, alone or inside
  an array, and \<^verbatim>\<open>register\<close> has no failing branch on websockets. No entry is ever
  stored under the empty string, so after any registration \<^verbatim>\<open>contains\<close> answers
  false for a websocket whose url is the empty string.
\<close>

lemma register_empty_key_skipped:
  assumes "isEmpty (url h)"
  shows "register (One h) s = s \<and>
         register (Many (xs @ h # ys)) s = register (Many (xs @ ys)) s"
  using assms by (simp add: register_def register_step_empty)

lemma register_empty_string_not_contained:
  assumes "registry_ok (wsList s)" and "url h = Str []"
  shows "\<not> contains h (register websockets s)"
proof -
  have "registry_ok (wsList (register websockets s))"
    using assms(1) by (rule registry_ok_register)
  then have "map_of (wsList (register websockets s)) [] = None"
    by (rule registry_ok_no_empty_key)
  with assms(2) show ?thesis
    by (simp add: contains_iff)
qed

text \<open>
  C4: the claim is that a websocket whose url is empty or absent is skipped by
  \<^verbatim>\<open>register\<close> and that \<^verbatim>\<open>contains\<close> answers false for it afterwards. \<^verbatim>\<open>register\<close>
  tests \<^verbatim>\<open>Ext.isEmpty\<close> of the url; \<^verbatim>\<open>contains\<close> looks the url up untested, and an
  absent url names the property \<^verbatim>\<open>"undefined"\<close>. With a websocket registered under
  the url \<^verbatim>\<open>"undefined"\<close>, registering a websocket that has no url changes nothing,
  yet \<^verbatim>\<open>contains\<close> answers true for it.
\<close>

theorem contains_true_for_skipped_websocket:
  "isEmpty (url ws_nourl) \<and>
   wsList (register (One ws_undefined) initial) = [(''undefined'', ws_undefined)] \<and>
   register (One ws_nourl) (register (One ws_undefined) initial) =
     register (One ws_undefined) initial \<and>
   contains ws_nourl (register (One ws_nourl) (register (One ws_undefined) initial))"
  by (simp add: register_One register_step_def contains_iff hm_add_def hm_containsKey_def
      initial_def ws_defs)

subsection \<open>disconnect, disconnectAll\<close>

text \<open>
  C8: the calls \<^verbatim>\<open>disconnectAll\<close> makes are one \<^verbatim>\<open>disconnect ()\<close> for each entry of
  the registry, in order; the registry is unchanged, so \<^verbatim>\<open>get\<close> answers as before for
  every key.
\<close>

theorem disconnectAll_keeps_registry:
  "calls_since s (disconnectAll s) = map (\<lambda>(k, w). Disconnect w) (wsList s) \<and>
   calls (disconnectAll s) = calls s @ calls_since s (disconnectAll s) \<and>
   wsList (disconnectAll s) = wsList s \<and>
   get k (disconnectAll s) = get k s"
  by (simp add: disconnectAll_eq get_eq calls_since_def)

text \<open>
  \<^verbatim>\<open>disconnect\<close> never fails. For a websocket whose url is a string: when that string
  is not a key of the registry, the state is unchanged, no call, no removal; when it is,
  \<^verbatim>\<open>disconnect ()\<close> is called once, on the websocket registered under that key,
  whichever websocket was passed, the entry of that key is removed and every other key
  keeps its entry.
\<close>

lemma disconnect_never_fails: "\<exists>s'. disconnect h s = Inr s'"
  by (simp add: disconnect_eq split: option.splits)

lemma disconnect_string_url:
  assumes "url h = Str u"
  shows "(get u s = None \<longrightarrow> disconnect h s = Inr s) \<and>
         (\<forall>w. get u s = Some w \<longrightarrow>
            (\<exists>s'. disconnect h s = Inr s' \<and> calls s' = calls s @ [Disconnect w] \<and>
               \<not> contains h s' \<and> (\<forall>k. get k s' = (if k = u then None else get k s))))"
  using assms
  by (auto simp: disconnect_eq contains_iff get_eq hm_removeAtKey_filter [symmetric]
      map_of_hm_removeAtKey)

text \<open>
  C9: the claim is that \<^verbatim>\<open>disconnect\<close> of a websocket whose key is not in the registry
  does nothing. \<^verbatim>\<open>disconnect\<close> looks the url up untested, as \<^verbatim>\<open>contains\<close> does, and
  an absent url names the property \<^verbatim>\<open>"undefined"\<close>. With one websocket registered,
  under the url \<^verbatim>\<open>"undefined"\<close>, and a websocket that has no url passed to
  \<^verbatim>\<open>disconnect\<close>: the registered websocket is disconnected and its entry removed.
\<close>

theorem disconnect_without_url_hits_other_entry:
  "url ws_nourl = Undefined \<and>
   wsList (register (One ws_undefined) initial) = [(''undefined'', ws_undefined)] \<and>
   disconnect ws_nourl (register (One ws_undefined) initial) =
     Inr \<lparr>wsList = [], calls = [Disconnect ws_undefined]\<rparr>"
proof -
  have eq: "register (One ws_undefined) initial =
      \<lparr>wsList = [(''undefined'', ws_undefined)], calls = []\<rparr>"
    by (simp add: register_One register_step_def hm_add_def hm_containsKey_def initial_def
        ws_defs)
  show ?thesis
    unfolding eq by (simp add: disconnect_eq ws_defs)
qed

end
